theory Spec2Isabelle
  imports Main "HOL-Library.Word" "HOL-Library.Multiset" "HOL-Library.List_Lexorder"
begin

section \<open>The UCI options of the engine (src/ucioption.cpp)\<close>

text \<open>
  The file embeds \<^verbatim>\<open>src/ucioption.cpp\<close>: the \<^verbatim>\<open>Option\<close> class (a value cell with a
  type tag, a default and a current value kept as text, bounds, an insertion index and an
  optional callback), the case insensitive ordering of option names, the options map, the
  catalog built by \<^verbatim>\<open>UCI::init\<close> and the printer of the map.

  C++ strings are byte strings, modelled as \<^typ>\<open>string\<close>. The \<^verbatim>\<open>int\<close> of the
  source is 32 bits wide; its values are modelled as \<^typ>\<open>int\<close>, the only place where the
  width matters being the range check of \<^verbatim>\<open>std::stoi\<close>, which is written out.
\<close>

subsection \<open>Library functions the source calls\<close>

datatype exn = invalid_argument | out_of_range | assertion_failed

text \<open>\<^verbatim>\<open>isspace\<close> and \<^verbatim>\<open>isdigit\<close> of the C locale, on the byte's code.\<close>

definition isspace :: "char \<Rightarrow> bool" where
  "isspace c = ((of_char c :: nat) = 32 \<or> (9 \<le> (of_char c :: nat) \<and> (of_char c :: nat) \<le> 13))"

definition isdigit :: "char \<Rightarrow> bool" where
  "isdigit c = (48 \<le> (of_char c :: nat) \<and> (of_char c :: nat) \<le> 57)"

definition digit_val :: "char \<Rightarrow> int" where
  "digit_val c = int (of_char c) - 48"

text \<open>
  The digit loop of \<^verbatim>\<open>strtol\<close> in base 10: it consumes digits as long as there are
  some and stops at the first other byte (the terminating NUL of \<^verbatim>\<open>c_str()\<close>, or a NUL
  inside the string, is such a byte). The accumulator is unbounded here; the range is
  checked once at the end, which gives the same outcome as the library's saturation.
\<close>

fun strtol_digits :: "int \<Rightarrow> string \<Rightarrow> int" where
  "strtol_digits acc [] = acc"
| "strtol_digits acc (c # cs) =
     (if isdigit c then strtol_digits (acc * 10 + digit_val c) cs else acc)"

definition INT_MIN :: int where "INT_MIN = - 2147483648"
definition INT_MAX :: int where "INT_MAX = 2147483647"

text \<open>
  \<^verbatim>\<open>std::stoi(str)\<close>, that is \<^verbatim>\<open>strtol(str.c_str(), &end, 10)\<close> with the library's
  checks: leading white space is skipped, one sign is read, then the digits; when no
  digit was read the call throws \<^verbatim>\<open>std::invalid_argument\<close>, when the number does not
  fit an \<^verbatim>\<open>int\<close> it throws \<^verbatim>\<open>std::out_of_range\<close>. What follows the digits is ignored.
\<close>

definition strtol_number :: "bool \<Rightarrow> string \<Rightarrow> exn + int" where
  "strtol_number neg s =
     (case s of
        [] \<Rightarrow> Inl invalid_argument
      | d # _ \<Rightarrow>
          if \<not> isdigit d then Inl invalid_argument
          else let n = strtol_digits 0 s; v = (if neg then - n else n)
               in if v < INT_MIN \<or> INT_MAX < v then Inl out_of_range else Inr v)"

definition strtol_signed :: "string \<Rightarrow> exn + int" where
  "strtol_signed s =
     (case s of
        [] \<Rightarrow> Inl invalid_argument
      | c # cs \<Rightarrow>
          if c = CHR ''-'' then strtol_number True cs
          else if c = CHR ''+'' then strtol_number False cs
          else strtol_number False s)"

definition stoi :: "string \<Rightarrow> exn + int" where
  "stoi str = strtol_signed (dropWhile isspace str)"

text \<open>
  \<^verbatim>\<open>std::to_string(int)\<close>, and the way an \<^verbatim>\<open>ostream\<close> with default flags writes an
  \<^verbatim>\<open>int\<close>: the decimal digits, with a minus sign in front of a negative number.
\<close>

definition digit_char :: "nat \<Rightarrow> char" where
  "digit_char d = ''0123456789'' ! d"

function dec_digits :: "nat \<Rightarrow> string" where
  "dec_digits n = (if n < 10 then [digit_char n] else dec_digits (n div 10) @ [digit_char (n mod 10)])"
  by pat_completeness auto
termination
  by (relation "measure id") auto

declare dec_digits.simps [simp del]

definition to_string :: "int \<Rightarrow> string" where
  "to_string v = (if v < 0 then CHR ''-'' # dec_digits (nat (- v)) else dec_digits (nat v))"

subsection \<open>The Option class\<close>

text \<open>
  The callbacks of lines 41 to 47 hand the cell over to other translation units (search,
  evaluation, transposition table, threads, logger, tablebases), whose effects are not
  part of the file: a callback is known here by its name, and a call of it is recorded
  with the cell it was given.
\<close>

datatype OnChange =
  on_clear_hash | on_eval | on_hash_size | on_large_pages | on_logger | on_threads | on_tb_path

text \<open>
  The fields of \<^verbatim>\<open>Option\<close>. \<^verbatim>\<open>min\<close> and \<^verbatim>\<open>max\<close> are named \<open>min_v\<close> and
  \<open>max_v\<close>, \<^verbatim>\<open>type\<close> is \<open>type_v\<close>. No constructor writes \<^verbatim>\<open>idx\<close>: \<open>None\<close> is the
  index that was never written, \<open>Some i\<close> the index stamped at registration.
  \<open>on_change = None\<close> is the null function pointer.
\<close>

record Option =
  defaultValue :: string
  currentValue :: string
  type_v :: string
  min_v :: int
  max_v :: int
  idx :: "nat option"
  on_change :: "OnChange option"

text \<open>The four constructors (lines 138 to 148), in the order of the source.\<close>

definition Option_string :: "string \<Rightarrow> OnChange option \<Rightarrow> Option" where
  "Option_string v f =
     \<lparr>defaultValue = v, currentValue = v, type_v = ''string'', min_v = 0, max_v = 0,
      idx = None, on_change = f\<rparr>"

definition Option_check :: "bool \<Rightarrow> OnChange option \<Rightarrow> Option" where
  "Option_check v f =
     \<lparr>defaultValue = (if v then ''true'' else ''false''),
      currentValue = (if v then ''true'' else ''false''),
      type_v = ''check'', min_v = 0, max_v = 0, idx = None, on_change = f\<rparr>"

definition Option_button :: "OnChange option \<Rightarrow> Option" where
  "Option_button f =
     \<lparr>defaultValue = [], currentValue = [], type_v = ''button'', min_v = 0, max_v = 0,
      idx = None, on_change = f\<rparr>"

definition Option_spin :: "int \<Rightarrow> int \<Rightarrow> int \<Rightarrow> OnChange option \<Rightarrow> Option" where
  "Option_spin v minv maxv f =
     \<lparr>defaultValue = to_string v, currentValue = to_string v, type_v = ''spin'',
      min_v = minv, max_v = maxv, idx = None, on_change = f\<rparr>"

text \<open>
  \<^verbatim>\<open>Option::operator int()\<close> (lines 150 to 153). The assertion is a branch of its own;
  \<^verbatim>\<open>stoi\<close> may throw.
\<close>

definition operator_int :: "Option \<Rightarrow> exn + int" where
  "operator_int c =
     (if \<not> (type_v c = ''check'' \<or> type_v c = ''spin'') then Inl assertion_failed
      else if type_v c = ''spin'' then stoi (currentValue c)
      else Inr (if currentValue c = ''true'' then 1 else 0))"

text \<open>\<^verbatim>\<open>Option::operator std::string()\<close> (lines 155 to 158).\<close>

definition operator_string :: "Option \<Rightarrow> exn + string" where
  "operator_string c =
     (if type_v c \<noteq> ''string'' then Inl assertion_failed else Inr (currentValue c))"

text \<open>
  The condition of the \<^verbatim>\<open>if\<close> of \<^verbatim>\<open>Option::operator=\<close> (lines 180 to 182), with the
  short-circuit order of the source: \<open>Inr True\<close> when the new value is refused,
  \<open>Inr False\<close> when it is taken, \<open>Inl e\<close> when one of the two calls of \<^verbatim>\<open>stoi\<close>
  throws \<open>e\<close>.
\<close>

definition refused :: "Option \<Rightarrow> string \<Rightarrow> exn + bool" where
  "refused c v =
     (if type_v c \<noteq> ''button'' \<and> v = [] then Inr True
      else if type_v c = ''check'' \<and> v \<noteq> ''true'' \<and> v \<noteq> ''false'' then Inr True
      else if type_v c = ''spin'' then
        (case stoi v of
           Inl e \<Rightarrow> Inl e
         | Inr k \<Rightarrow>
             if k < min_v c then Inr True
             else (case stoi v of Inl e \<Rightarrow> Inl e | Inr k' \<Rightarrow> Inr (max_v c < k')))
      else Inr False)"

text \<open>
  What a call of \<^verbatim>\<open>Option::operator=(const string&)\<close> leaves behind: the exception that
  left the call (\<open>None\<close> when it returned), the cell after the call, and the callbacks
  that were called, each with the cell it was given.
\<close>

record assign_result =
  thrown :: "exn option"
  cell :: Option
  calls :: "(OnChange \<times> Option) list"

text \<open>
  \<^verbatim>\<open>Option::operator=(const string& v)\<close> (lines 176 to 192). The assertion of line
  178 is the first branch.
\<close>

definition operator_assign :: "Option \<Rightarrow> string \<Rightarrow> assign_result" where
  "operator_assign c v =
     (if type_v c = [] then \<lparr>thrown = Some assertion_failed, cell = c, calls = []\<rparr>
      else case refused c v of
        Inl e \<Rightarrow> \<lparr>thrown = Some e, cell = c, calls = []\<rparr>
      | Inr True \<Rightarrow> \<lparr>thrown = None, cell = c, calls = []\<rparr>
      | Inr False \<Rightarrow>
          (let c' = (if type_v c \<noteq> ''button'' then c\<lparr>currentValue := v\<rparr> else c)
           in \<lparr>thrown = None, cell = c',
               calls = (case on_change c' of None \<Rightarrow> [] | Some f \<Rightarrow> [(f, c')])\<rparr>))"

subsection \<open>The case insensitive ordering of names\<close>

text \<open>
  \<^verbatim>\<open>tolower\<close> takes and returns an \<^verbatim>\<open>int\<close>. Whether plain \<^verbatim>\<open>char\<close> is signed is
  the platform's choice: \<open>sg\<close> says that it is, and then a byte from 128 on is passed
  as a negative number. In the C locale only the capital letters A to Z are changed.
\<close>

definition char_to_int :: "bool \<Rightarrow> char \<Rightarrow> int" where
  "char_to_int sg c =
     (if sg \<and> 128 \<le> (of_char c :: nat) then int (of_char c) - 256 else int (of_char c))"

definition tolower :: "int \<Rightarrow> int" where
  "tolower x = (if 65 \<le> x \<and> x \<le> 90 then x + 32 else x)"

text \<open>\<^verbatim>\<open>std::lexicographical_compare\<close> with a comparison \<open>cmp\<close> (the source's \<^verbatim>\<open>comp\<close>).\<close>

fun lexicographical_compare :: "('a \<Rightarrow> 'a \<Rightarrow> bool) \<Rightarrow> 'a list \<Rightarrow> 'a list \<Rightarrow> bool" where
  "lexicographical_compare cmp [] [] = False"
| "lexicographical_compare cmp [] (y # ys) = True"
| "lexicographical_compare cmp (x # xs) [] = False"
| "lexicographical_compare cmp (x # xs) (y # ys) =
     (if cmp x y then True
      else if cmp y x then False
      else lexicographical_compare cmp xs ys)"

text \<open>\<^verbatim>\<open>CaseInsensitiveLess::operator()\<close> (lines 51 to 55).\<close>

definition CaseInsensitiveLess :: "bool \<Rightarrow> string \<Rightarrow> string \<Rightarrow> bool" where
  "CaseInsensitiveLess sg s1 s2 =
     lexicographical_compare
       (\<lambda>c1 c2. tolower (char_to_int sg c1) < tolower (char_to_int sg c2)) s1 s2"

subsection \<open>The options map\<close>

text \<open>
  \<^verbatim>\<open>OptionsMap\<close> is a \<^verbatim>\<open>std::map<string, Option, CaseInsensitiveLess>\<close>: its entries
  are kept in the order of their keys and it is walked in that order, so the model is
  the list of the entries in that order.
\<close>

type_synonym OptionsMap = "(string \<times> Option) list"

text \<open>
  \<^verbatim>\<open>std::map::find\<close>: the first entry whose key is not less than \<open>name\<close>, when
  \<open>name\<close> is not less than that key either.
\<close>

fun om_find :: "bool \<Rightarrow> OptionsMap \<Rightarrow> string \<Rightarrow> (string \<times> Option) option" where
  "om_find sg [] name = None"
| "om_find sg ((k, c) # r) name =
     (if CaseInsensitiveLess sg k name then om_find sg r name
      else if CaseInsensitiveLess sg name k then None
      else Some (k, c))"

text \<open>
  \<^verbatim>\<open>om[name]\<close> followed by an operation \<open>f\<close> on the slot it refers to. The slot is the
  entry with an equivalent key; when there is none, a new entry with a default-constructed
  cell is put in at its place in the order. \<open>f\<close> gives the slot's new content and a
  result of its own. The class declaration is not part of the file; the default
  constructor is taken to be the constructor of line 144 with the null pointer, the only
  one of the four that can be called without an argument.
\<close>

fun om_subscript ::
  "bool \<Rightarrow> string \<Rightarrow> (Option \<Rightarrow> Option \<times> 'a) \<Rightarrow> OptionsMap \<Rightarrow> OptionsMap \<times> 'a" where
  "om_subscript sg name f [] =
     (case f (Option_button None) of (c', a) \<Rightarrow> ([(name, c')], a))"
| "om_subscript sg name f ((k, c) # r) =
     (if CaseInsensitiveLess sg k name then
        (case om_subscript sg name f r of (r', a) \<Rightarrow> ((k, c) # r', a))
      else if CaseInsensitiveLess sg name k then
        (case f (Option_button None) of (c', a) \<Rightarrow> ((name, c') # (k, c) # r, a))
      else
        (case f c of (c', a) \<Rightarrow> ((k, c') # r, a)))"

text \<open>
  \<^verbatim>\<open>Option::operator<<(const Option& o)\<close> (lines 163 to 169): \<open>this\<close> is the slot,
  \<open>insert_order\<close> the static counter, which the call returns incremented. The counter
  is a \<^verbatim>\<open>size_t\<close>; the catalog registers 41 options, far from its wrap-around.
\<close>

definition operator_shl :: "Option \<Rightarrow> nat \<Rightarrow> Option \<Rightarrow> Option \<times> nat" where
  "operator_shl this insert_order opt = (opt\<lparr>idx := Some insert_order\<rparr>, insert_order + 1)"

text \<open>One statement \<^verbatim>\<open>o[name] << opt\<close> of the catalog, on the map and the counter.\<close>

definition register_option ::
  "bool \<Rightarrow> OptionsMap \<times> nat \<Rightarrow> string \<times> Option \<Rightarrow> OptionsMap \<times> nat" where
  "register_option sg st e =
     om_subscript sg (fst e) (\<lambda>this. operator_shl this (snd st) (snd e)) (fst st)"

subsection \<open>The catalog\<close>

text \<open>
  The statements of \<^verbatim>\<open>UCI::init\<close> (lines 62 to 107) in their order. \<open>Is64Bit\<close> is a
  constant of another header and a parameter here, and so is the value that
  \<^verbatim>\<open>std::thread::hardware_concurrency()\<close> returns, an \<^verbatim>\<open>unsigned int\<close> that the
  constructor takes as an \<^verbatim>\<open>int\<close>.
\<close>

definition MaxHashMB :: "bool \<Rightarrow> int" where
  "MaxHashMB Is64Bit = (if Is64Bit then 1024 * 1024 else 2048)"

definition catalog :: "bool \<Rightarrow> 32 word \<Rightarrow> (string \<times> Option) list" where
  "catalog Is64Bit hardware_concurrency =
     (let n = (if hardware_concurrency = 0 then 1 else hardware_concurrency) in
      [(''Tactical Mode'', Option_check False None),
       (''Debug Log File'', Option_string [] (Some on_logger)),
       (''Contempt'', Option_spin 0 (- 100) 100 None),
       (''Threads'', Option_spin (sint n) 1 512 (Some on_threads)),
       (''Hash'', Option_spin 16 1 (MaxHashMB Is64Bit) (Some on_hash_size)),
       (''Clear Hash'', Option_button (Some on_clear_hash)),
       (''Ponder'', Option_check False None),
       (''Material(mg)'', Option_spin 100 0 300 (Some on_eval)),
       (''Material(eg)'', Option_spin 100 0 300 (Some on_eval)),
       (''Imbalance(mg)'', Option_spin 100 0 300 (Some on_eval)),
       (''Imbalance(eg)'', Option_spin 100 0 300 (Some on_eval)),
       (''PawnStructure(mg)'', Option_spin 100 0 300 (Some on_eval)),
       (''PawnStructure(eg)'', Option_spin 100 0 300 (Some on_eval)),
       (''Mobility(mg)'', Option_spin 100 0 300 (Some on_eval)),
       (''Mobility(eg)'', Option_spin 100 0 300 (Some on_eval)),
       (''PassedPawns(mg)'', Option_spin 100 0 300 (Some on_eval)),
       (''PassedPawns(eg)'', Option_spin 100 0 300 (Some on_eval)),
       (''KingSafety(mg)'', Option_spin 100 0 300 (Some on_eval)),
       (''KingSafety(eg)'', Option_spin 100 0 300 (Some on_eval)),
       (''Threats(mg)'', Option_spin 100 0 300 (Some on_eval)),
       (''Threats(eg)'', Option_spin 100 0 300 (Some on_eval)),
       (''Space'', Option_spin 100 0 300 (Some on_eval)),
       (''Razoring'', Option_check True None),
       (''Futility'', Option_check True None),
       (''NullMove'', Option_check True None),
       (''ProbCut'', Option_check True None),
       (''Pruning'', Option_check True None),
       (''LMR'', Option_check True None),
       (''MaxLMR'', Option_spin 10 0 20 None),
       (''MultiPV'', Option_spin 1 1 500 None),
       (''Skill Level'', Option_spin 20 0 20 None),
       (''Move Overhead'', Option_spin 30 0 5000 None),
       (''Minimum Thinking Time'', Option_spin 20 0 5000 None),
       (''Large Pages'', Option_check True (Some on_large_pages)),
       (''Slow Mover'', Option_spin 89 10 1000 None),
       (''nodestime'', Option_spin 0 0 10000 None),
       (''UCI_Chess960'', Option_check False None),
       (''SyzygyPath'', Option_string ''<empty>'' (Some on_tb_path)),
       (''SyzygyProbeDepth'', Option_spin 1 1 100 None),
       (''Syzygy50MoveRule'', Option_check True None),
       (''SyzygyProbeLimit'', Option_spin 6 0 6 None)])"

text \<open>
  \<^verbatim>\<open>UCI::init(OptionsMap& o)\<close>: the statements run one after the other on the map and
  the static counter.
\<close>

definition init :: "bool \<Rightarrow> bool \<Rightarrow> 32 word \<Rightarrow> OptionsMap \<times> nat \<Rightarrow> OptionsMap \<times> nat" where
  "init sg Is64Bit hardware_concurrency st =
     foldl (register_option sg) st (catalog Is64Bit hardware_concurrency)"

subsection \<open>The printer\<close>

text \<open>
  The inner loop of \<^verbatim>\<open>operator<<(std::ostream&, const OptionsMap&)\<close> (lines 117 to
  130): the first entry, in the order of the map, whose index is \<open>i\<close>.
\<close>

fun first_with_idx :: "nat \<Rightarrow> OptionsMap \<Rightarrow> (string \<times> Option) option" where
  "first_with_idx i [] = None"
| "first_with_idx i ((k, c) # r) = (if idx c = Some i then Some (k, c) else first_with_idx i r)"

text \<open>What is written for that entry (lines 120 to 127).\<close>

definition print_option :: "string \<times> Option \<Rightarrow> string" where
  "print_option e =
     CHR 0x0A # ''option name '' @ fst e @ '' type '' @ type_v (snd e)
     @ (if type_v (snd e) \<noteq> ''button'' then '' default '' @ defaultValue (snd e) else [])
     @ (if type_v (snd e) = ''spin''
        then '' min '' @ to_string (min_v (snd e)) @ '' max '' @ to_string (max_v (snd e))
        else [])"

text \<open>
  \<^verbatim>\<open>operator<<(std::ostream& os, const OptionsMap& om)\<close> (lines 114 to 133); \<open>os\<close> is
  what the stream holds already.
\<close>

definition operator_shl_ostream :: "string \<Rightarrow> OptionsMap \<Rightarrow> string" where
  "operator_shl_ostream os om =
     foldl (\<lambda>out i. case first_with_idx i om of None \<Rightarrow> out | Some e \<Rightarrow> out @ print_option e)
       os [0..<length om]"

subsection \<open>The words of the specification\<close>

text \<open>
  The kinds of a value cell and their names in the protocol, the lower-casing of a name,
  the enumeration of a registry by insertion index and the line of a setting, as the
  specification words them; the theorems below compare them with the code.
\<close>

datatype kind = Toggle | Spin | Button | Text

fun kind_name :: "kind \<Rightarrow> string" where
  "kind_name Text = ''string''"
| "kind_name Toggle = ''check''"
| "kind_name Button = ''button''"
| "kind_name Spin = ''spin''"

definition kind_of :: "Option \<Rightarrow> kind option" where
  "kind_of c =
     (if type_v c = ''string'' then Some Text
      else if type_v c = ''check'' then Some Toggle
      else if type_v c = ''button'' then Some Button
      else if type_v c = ''spin'' then Some Spin
      else None)"

definition ascii_lower :: "char \<Rightarrow> char" where
  "ascii_lower c =
     (if 65 \<le> (of_char c :: nat) \<and> (of_char c :: nat) \<le> 90 then char_of (of_char c + 32 :: nat) else c)"

definition insertionIndex :: "string \<times> Option \<Rightarrow> nat" where
  "insertionIndex e = (case idx (snd e) of None \<Rightarrow> 0 | Some i \<Rightarrow> i)"

definition enumerateByInsertionOrder :: "OptionsMap \<Rightarrow> (string \<times> Option) list" where
  "enumerateByInsertionOrder om = sort_key insertionIndex om"

definition declaration_line :: "string \<times> Option \<Rightarrow> string" where
  "declaration_line e =
     (case kind_of (snd e) of
        None \<Rightarrow> []
      | Some k \<Rightarrow>
          CHR 0x0A # ''option name '' @ fst e @ '' type '' @ kind_name k
          @ (if k \<noteq> Button then '' default '' @ defaultValue (snd e) else [])
          @ (if k = Spin
             then '' min '' @ to_string (min_v (snd e)) @ '' max '' @ to_string (max_v (snd e))
             else []))"

text \<open>
  The invariant of a spin cell: the current value parses, and the number lies within the
  bounds.
\<close>

definition spin_invariant :: "Option \<Rightarrow> bool" where
  "spin_invariant c =
     (case stoi (currentValue c) of
        Inl e \<Rightarrow> False
      | Inr k \<Rightarrow> min_v c \<le> max_v c \<and> min_v c \<le> k \<and> k \<le> max_v c)"

text \<open>
  A registry as the data model has it: every cell is of one of the four kinds, every
  cell has an index, and the indices are the numbers below the number of cells, each
  once.
\<close>

definition registry_wf :: "OptionsMap \<Rightarrow> bool" where
  "registry_wf om =
     (list_all (\<lambda>e. kind_of (snd e) \<noteq> None \<and> idx (snd e) \<noteq> None) om
      \<and> sort (map insertionIndex om) = [0..<length om])"

text \<open>
  Three notions the proofs are stated with. The key of a name is the list of the numbers
  \<^verbatim>\<open>CaseInsensitiveLess\<close> compares; a map is ordered when its entries ascend in
  \<^verbatim>\<open>CaseInsensitiveLess\<close>, as a \<^verbatim>\<open>std::map\<close> keeps them; \<open>stamped n es\<close> are the
  entries \<open>es\<close> of a catalog with the indices \<open>n\<close>, \<open>n + 1\<close>, ... in their order.
\<close>

definition fold_key :: "bool \<Rightarrow> string \<Rightarrow> int list" where
  "fold_key sg s = map (\<lambda>c. tolower (char_to_int sg c)) s"

definition om_ordered :: "bool \<Rightarrow> OptionsMap \<Rightarrow> bool" where
  "om_ordered sg om = sorted_wrt (\<lambda>a b. CaseInsensitiveLess sg (fst a) (fst b)) om"

fun stamped :: "nat \<Rightarrow> (string \<times> Option) list \<Rightarrow> (string \<times> Option) list" where
  "stamped n [] = []"
| "stamped n (e # es) = (fst e, (snd e)\<lparr>idx := Some n\<rparr>) # stamped (n + 1) es"

section \<open>Assignment\<close>

subsection \<open>Evaluating the library functions\<close>

lemmas stoi_eval =
  stoi_def strtol_signed_def strtol_number_def isspace_def isdigit_def digit_val_def
  INT_MIN_def INT_MAX_def

lemmas to_string_eval = to_string_def dec_digits.simps digit_char_def

lemma stoi_Nil: "stoi [] = Inl invalid_argument"
  by (simp add: stoi_def strtol_signed_def)

lemma stoi_nonempty: "stoi v = Inr k \<Longrightarrow> v \<noteq> []"
  by (auto simp: stoi_Nil)

text \<open>What follows the digits is not read: a text that parses still parses, to the same
  number, when bytes that do not start with a digit are put behind it.\<close>

lemma strtol_digits_append:
  "(case rest of [] \<Rightarrow> True | r # _ \<Rightarrow> \<not> isdigit r) \<Longrightarrow>
   strtol_digits acc (xs @ rest) = strtol_digits acc xs"
  by (induction xs arbitrary: acc) (auto split: list.splits)

lemma strtol_number_append:
  assumes "strtol_number neg s = Inr k"
    and "case rest of [] \<Rightarrow> True | r # _ \<Rightarrow> \<not> isdigit r"
  shows "strtol_number neg (s @ rest) = Inr k"
proof (cases s)
  case Nil
  with assms(1) show ?thesis by (simp add: strtol_number_def)
next
  case (Cons d ds)
  have "strtol_digits 0 ((d # ds) @ rest) = strtol_digits 0 (d # ds)"
    using assms(2) by (rule strtol_digits_append)
  with assms(1) Cons show ?thesis
    by (auto simp: strtol_number_def simp del: strtol_digits.simps split: if_splits)
qed

lemma strtol_signed_append:
  assumes "strtol_signed s = Inr k"
    and "case rest of [] \<Rightarrow> True | r # _ \<Rightarrow> \<not> isdigit r"
  shows "strtol_signed (s @ rest) = Inr k"
proof (cases s)
  case Nil
  with assms(1) show ?thesis by (simp add: strtol_signed_def)
next
  case (Cons c cs)
  with assms show ?thesis
    using strtol_number_append[of _ cs k rest] strtol_number_append[of False "c # cs" k rest]
    by (auto simp: strtol_signed_def split: if_splits)
qed

lemma stoi_append:
  assumes "stoi v = Inr k"
    and "case rest of [] \<Rightarrow> True | r # _ \<Rightarrow> \<not> isdigit r"
  shows "stoi (v @ rest) = Inr k"
proof -
  have ne: "dropWhile isspace v \<noteq> []"
  proof
    assume e: "dropWhile isspace v = []"
    have "stoi v = Inl invalid_argument"
      unfolding stoi_def e by (simp add: strtol_signed_def)
    with assms(1) show False by simp
  qed
  then have "dropWhile isspace (v @ rest) = dropWhile isspace v @ rest"
    by (auto simp: dropWhile_append)
  with assms show ?thesis
    by (simp add: stoi_def strtol_signed_append)
qed

text \<open>The cell of the option Hash on a 32-bit build, as the catalog constructs it.\<close>

lemma hash_cell:
  "type_v (Option_spin 16 1 2048 (Some on_hash_size)) = ''spin''"
  "min_v (Option_spin 16 1 2048 (Some on_hash_size)) = 1"
  "max_v (Option_spin 16 1 2048 (Some on_hash_size)) = 2048"
  "on_change (Option_spin 16 1 2048 (Some on_hash_size)) = Some on_hash_size"
  "currentValue (Option_spin 16 1 2048 (Some on_hash_size)) = ''16''"
  by (simp_all add: Option_spin_def to_string_eval)

subsection \<open>Spin cells\<close>

text \<open>
  C1. For a spin cell and a text that \<^verbatim>\<open>stoi\<close> parses as \<open>k\<close>: when \<open>k\<close> is within
  the bounds of the cell the assignment returns, the current value is that text and
  reading the cell as an integer gives \<open>k\<close>; when \<open>k\<close> is below the minimum or above
  the maximum the assignment returns, the cell is what it was and no callback is called.
\<close>

theorem spin_assign_within_bounds:
  assumes "type_v c = ''spin''" and "stoi v = Inr k"
  shows "(min_v c \<le> k \<and> k \<le> max_v c \<longrightarrow>
            thrown (operator_assign c v) = None \<and>
            cell (operator_assign c v) = c\<lparr>currentValue := v\<rparr> \<and>
            operator_int (cell (operator_assign c v)) = Inr k) \<and>
         (k < min_v c \<or> max_v c < k \<longrightarrow>
            thrown (operator_assign c v) = None \<and>
            cell (operator_assign c v) = c \<and>
            calls (operator_assign c v) = [])"
proof -
  from assms(2) have "v \<noteq> []" by (rule stoi_nonempty)
  with assms show ?thesis
    by (auto simp: operator_assign_def refused_def operator_int_def Let_def)
qed

theorem spin_assign_within_bounds_witness:
  "operator_int (cell (operator_assign (Option_spin 16 1 2048 (Some on_hash_size)) ''512''))
     = Inr 512 \<and>
   currentValue (cell (operator_assign (Option_spin 16 1 2048 (Some on_hash_size)) ''512''))
     = ''512'' \<and>
   cell (operator_assign (Option_spin 16 1 2048 (Some on_hash_size)) ''4000'')
     = Option_spin 16 1 2048 (Some on_hash_size)"
proof -
  have a: "stoi ''512'' = Inr 512" by (simp add: stoi_eval)
  have b: "stoi ''4000'' = Inr 4000" by (simp add: stoi_eval)
  from spin_assign_within_bounds[OF hash_cell(1) a]
  have "operator_int (cell (operator_assign (Option_spin 16 1 2048 (Some on_hash_size)) ''512''))
          = Inr 512
        \<and> cell (operator_assign (Option_spin 16 1 2048 (Some on_hash_size)) ''512'')
          = (Option_spin 16 1 2048 (Some on_hash_size))\<lparr>currentValue := ''512''\<rparr>"
    unfolding hash_cell by auto
  moreover from spin_assign_within_bounds[OF hash_cell(1) b]
  have "cell (operator_assign (Option_spin 16 1 2048 (Some on_hash_size)) ''4000'')
          = Option_spin 16 1 2048 (Some on_hash_size)"
    unfolding hash_cell by auto
  ultimately show ?thesis by auto
qed

text \<open>
  What the code does with a spin cell and a text that is not empty and on which
  \<^verbatim>\<open>stoi\<close> throws \<open>e\<close> (no digit to read, or a number that does not fit an
  \<^verbatim>\<open>int\<close>): the exception leaves \<^verbatim>\<open>operator=\<close> from inside the condition of line
  182, before the cell is written and before any callback is called.
\<close>

lemma spin_assign_unparsable_exits:
  assumes "type_v c = ''spin''" and "v \<noteq> []" and "stoi v = Inl e"
  shows "operator_assign c v = \<lparr>thrown = Some e, cell = c, calls = []\<rparr>"
  using assms by (simp add: operator_assign_def refused_def)

text \<open>
  C2 says that a spin cell given a text that is not empty and does not parse as an
  integer is left unchanged by a call that returns normally, with no callback called.
  The code misses this case: for the option Hash and the string \<open>abc\<close>, which has no
  digit, or \<open>99999999999\<close>, which does not fit an \<^verbatim>\<open>int\<close>, the call does not return
  but is left by the exception of \<^verbatim>\<open>stoi\<close>, whereas the other refused texts (the
  empty one, a number outside the bounds such as \<open>4000\<close>) end in the silent return of
  line 183.
\<close>

theorem spin_assign_unparsable_throws:
  "type_v (Option_spin 16 1 2048 (Some on_hash_size)) = ''spin'' \<and>
   ''abc'' \<noteq> [] \<and> stoi ''abc'' = Inl invalid_argument \<and>
   operator_assign (Option_spin 16 1 2048 (Some on_hash_size)) ''abc'' =
     \<lparr>thrown = Some invalid_argument, cell = Option_spin 16 1 2048 (Some on_hash_size),
      calls = []\<rparr> \<and>
   operator_assign (Option_spin 16 1 2048 (Some on_hash_size)) ''99999999999'' =
     \<lparr>thrown = Some out_of_range, cell = Option_spin 16 1 2048 (Some on_hash_size),
      calls = []\<rparr> \<and>
   operator_assign (Option_spin 16 1 2048 (Some on_hash_size)) ''4000'' =
     \<lparr>thrown = None, cell = Option_spin 16 1 2048 (Some on_hash_size), calls = []\<rparr> \<and>
   operator_assign (Option_spin 16 1 2048 (Some on_hash_size)) [] =
     \<lparr>thrown = None, cell = Option_spin 16 1 2048 (Some on_hash_size), calls = []\<rparr>"
proof -
  have a: "stoi ''abc'' = Inl invalid_argument" by (simp add: stoi_eval)
  have b: "stoi ''99999999999'' = Inl out_of_range" by (simp add: stoi_eval)
  have c: "stoi ''4000'' = Inr 4000" by (simp add: stoi_eval)
  have "operator_assign (Option_spin 16 1 2048 (Some on_hash_size)) ''4000'' =
     \<lparr>thrown = None, cell = Option_spin 16 1 2048 (Some on_hash_size), calls = []\<rparr>"
    by (simp add: operator_assign_def refused_def hash_cell c)
  moreover have "operator_assign (Option_spin 16 1 2048 (Some on_hash_size)) [] =
     \<lparr>thrown = None, cell = Option_spin 16 1 2048 (Some on_hash_size), calls = []\<rparr>"
    by (simp add: operator_assign_def refused_def hash_cell)
  ultimately show ?thesis
    using a spin_assign_unparsable_exits[OF hash_cell(1) _ a]
      spin_assign_unparsable_exits[OF hash_cell(1) _ b]
    by (simp add: hash_cell)
qed

text \<open>
  C10. For a spin cell, a string \<open>v\<close> that parses as \<open>k\<close> within the bounds, and any
  bytes \<open>rest\<close> that do not start with a digit: the assignment of \<open>v @ rest\<close> returns,
  the current value is \<open>v @ rest\<close> as given, and reading the cell as an integer gives
  \<open>k\<close>, the number of the numeric prefix.
\<close>

theorem spin_assign_stores_text:
  assumes "type_v c = ''spin''" and "stoi v = Inr k"
    and "min_v c \<le> k" and "k \<le> max_v c"
    and "case rest of [] \<Rightarrow> True | r # _ \<Rightarrow> \<not> isdigit r"
  shows "thrown (operator_assign c (v @ rest)) = None \<and>
         currentValue (cell (operator_assign c (v @ rest))) = v @ rest \<and>
         operator_int (cell (operator_assign c (v @ rest))) = Inr k"
proof -
  have s: "stoi (v @ rest) = Inr k" using assms(2,5) by (rule stoi_append)
  then have "v @ rest \<noteq> []" by (rule stoi_nonempty)
  with s assms(1,3,4) show ?thesis
    by (auto simp: operator_assign_def refused_def operator_int_def Let_def)
qed

theorem spin_assign_stores_text_witness:
  "currentValue (cell (operator_assign (Option_spin 16 1 2048 (Some on_hash_size)) ''007''))
     = ''007'' \<and>
   operator_int (cell (operator_assign (Option_spin 16 1 2048 (Some on_hash_size)) ''007''))
     = Inr 7 \<and>
   to_string 7 = ''7'' \<and>
   currentValue (cell (operator_assign (Option_spin 16 1 2048 (Some on_hash_size)) ''12abc''))
     = ''12abc'' \<and>
   operator_int (cell (operator_assign (Option_spin 16 1 2048 (Some on_hash_size)) ''12abc''))
     = Inr 12"
proof -
  have a: "stoi ''007'' = Inr 7" by (simp add: stoi_eval)
  have b: "stoi ''12'' = Inr 12" by (simp add: stoi_eval)
  have r: "case ''abc'' of [] \<Rightarrow> True | r # _ \<Rightarrow> \<not> isdigit r" by (simp add: isdigit_def)
  have d: "to_string 7 = ''7''" by (simp add: to_string_eval)
  from spin_assign_stores_text[OF hash_cell(1) a, of "[]"]
    spin_assign_stores_text[OF hash_cell(1) b _ _ r] d
  show ?thesis unfolding hash_cell by simp
qed

subsection \<open>Callbacks\<close>

text \<open>
  C3, as the specification has it, says that the callback is called exactly when the
  stored value changes. Assigning to the option Hash the string \<open>16\<close> it holds already
  leaves the cell as it was, and the callback is called.
\<close>

theorem callback_on_unchanged_value:
  "cell (operator_assign (Option_spin 16 1 2048 (Some on_hash_size)) ''16'')
     = Option_spin 16 1 2048 (Some on_hash_size) \<and>
   calls (operator_assign (Option_spin 16 1 2048 (Some on_hash_size)) ''16'')
     = [(on_hash_size, Option_spin 16 1 2048 (Some on_hash_size))]"
  by (simp add: operator_assign_def refused_def Option_spin_def stoi_eval to_string_eval Let_def)

text \<open>
  C3, amended. For a cell with a callback \<open>f\<close> (and a type tag, as every constructor
  gives one), the assignment calls \<open>f\<close> once, with the cell after the assignment, when
  the text passes the check of lines 180 to 182, and does not call it otherwise, whether
  or not the text differs from the current value: assigning the current value, when it
  passes the check, leaves the cell as it was and calls \<open>f\<close>.
\<close>

theorem callback_iff_accepted:
  assumes "on_change c = Some f" and "type_v c \<noteq> []"
  shows "calls (operator_assign c v) =
           (if refused c v = Inr False then [(f, cell (operator_assign c v))] else []) \<and>
         (refused c (currentValue c) = Inr False \<longrightarrow>
            cell (operator_assign c (currentValue c)) = c \<and>
            calls (operator_assign c (currentValue c)) = [(f, c)])"
  using assms by (auto simp: operator_assign_def Let_def split: sum.splits bool.splits)

theorem callback_iff_accepted_witness:
  "calls (operator_assign (Option_spin 16 1 2048 (Some on_hash_size)) ''16'')
     = [(on_hash_size, Option_spin 16 1 2048 (Some on_hash_size))] \<and>
   calls (operator_assign (Option_spin 16 1 2048 (Some on_hash_size)) ''4000'') = []"
proof -
  have a: "refused (Option_spin 16 1 2048 (Some on_hash_size)) ''16'' = Inr False"
    by (simp add: refused_def hash_cell stoi_eval)
  have b: "refused (Option_spin 16 1 2048 (Some on_hash_size)) ''4000'' = Inr True"
    by (simp add: refused_def hash_cell stoi_eval)
  have t: "type_v (Option_spin 16 1 2048 (Some on_hash_size)) \<noteq> []"
    by (simp add: hash_cell)
  from callback_iff_accepted[OF hash_cell(4) t, of "''16''"]
    callback_iff_accepted[OF hash_cell(4) t, of "''4000''"]
  show ?thesis by (simp add: a b hash_cell)
qed

subsection \<open>Check and button cells\<close>

text \<open>
  C6. For a check cell, the assignment always returns; the strings \<open>true\<close> and \<open>false\<close>
  are taken (the current value becomes the text, the callback, if there is one, is
  called), and with every other text the cell is what it was and no callback is called.
\<close>

theorem check_assign_true_false:
  assumes "type_v c = ''check''"
  shows "operator_assign c v =
     (if v = ''true'' \<or> v = ''false''
      then \<lparr>thrown = None, cell = c\<lparr>currentValue := v\<rparr>,
            calls = (case on_change c of None \<Rightarrow> []
                     | Some f \<Rightarrow> [(f, c\<lparr>currentValue := v\<rparr>)])\<rparr>
      else \<lparr>thrown = None, cell = c, calls = []\<rparr>)"
  using assms by (auto simp: operator_assign_def refused_def Let_def)

theorem check_assign_true_false_witness:
  "operator_assign (Option_check True (Some on_large_pages)) ''false'' =
     \<lparr>thrown = None,
      cell = (Option_check True (Some on_large_pages))\<lparr>currentValue := ''false''\<rparr>,
      calls = [(on_large_pages,
                (Option_check True (Some on_large_pages))\<lparr>currentValue := ''false''\<rparr>)]\<rparr> \<and>
   operator_assign (Option_check True (Some on_large_pages)) ''False'' =
     \<lparr>thrown = None, cell = Option_check True (Some on_large_pages), calls = []\<rparr> \<and>
   operator_assign (Option_check True (Some on_large_pages)) [] =
     \<lparr>thrown = None, cell = Option_check True (Some on_large_pages), calls = []\<rparr>"
proof -
  have t: "type_v (Option_check True (Some on_large_pages)) = ''check''"
    and f: "on_change (Option_check True (Some on_large_pages)) = Some on_large_pages"
    by (simp_all add: Option_check_def)
  from check_assign_true_false[OF t, of "''false''"] check_assign_true_false[OF t, of "''False''"]
    check_assign_true_false[OF t, of "[]"]
  show ?thesis by (simp add: f)
qed

text \<open>
  C7. For a button cell with a callback \<open>f\<close>, the assignment of any text, the empty one
  too, returns, leaves the cell as it was and calls \<open>f\<close> once.
\<close>

theorem button_assign_calls_once:
  assumes "type_v c = ''button''" and "on_change c = Some f"
  shows "operator_assign c v = \<lparr>thrown = None, cell = c, calls = [(f, c)]\<rparr>"
  using assms by (simp add: operator_assign_def refused_def)

theorem button_assign_calls_once_witness:
  "operator_assign (Option_button (Some on_clear_hash)) [] =
     \<lparr>thrown = None, cell = Option_button (Some on_clear_hash),
      calls = [(on_clear_hash, Option_button (Some on_clear_hash))]\<rparr> \<and>
   length (calls (operator_assign (Option_button (Some on_clear_hash)) ''anything'')) = 1"
proof -
  have t: "type_v (Option_button (Some on_clear_hash)) = ''button''"
    and f: "on_change (Option_button (Some on_clear_hash)) = Some on_clear_hash"
    by (simp_all add: Option_button_def)
  from button_assign_calls_once[OF t f, of "[]"] button_assign_calls_once[OF t f, of "''anything''"]
  show ?thesis by simp
qed

section \<open>The ordering of names and the map\<close>

lemma CaseInsensitiveLess_fold_key:
  "CaseInsensitiveLess sg a b \<longleftrightarrow> fold_key sg a < fold_key sg b"
proof (induction a arbitrary: b)
  case Nil
  then show ?case by (cases b) (simp_all add: CaseInsensitiveLess_def fold_key_def)
next
  case (Cons x xs)
  show ?case
  proof (cases b)
    case Nil
    then show ?thesis by (simp add: CaseInsensitiveLess_def fold_key_def)
  next
    case (Cons y ys)
    with Cons.IH[of ys] show ?thesis
      by (auto simp: CaseInsensitiveLess_def fold_key_def)
  qed
qed

lemma of_char_less_256: "(of_char c :: nat) < 256" "(of_char c :: int) < 256"
proof -
  have "(of_char c :: nat) mod 256 < 256" by (rule mod_less_divisor) simp
  then show "(of_char c :: nat) < 256" by (simp only: of_char_mod_256)
  have "(of_char c :: int) mod 256 < 256" by (rule pos_mod_bound) simp
  then show "(of_char c :: int) < 256" by (simp only: of_char_mod_256)
qed

lemma tolower_ascii_lower:
  "tolower (char_to_int sg c) = char_to_int sg (ascii_lower c)"
proof -
  have b: "(of_char c :: nat) < 256" by (rule of_char_less_256)
  define n :: nat where "n = of_char c"
  have c: "c = char_of n" by (simp add: n_def)
  from b have "n < 256" by (simp add: n_def)
  then show ?thesis
    unfolding c by (auto simp: tolower_def char_to_int_def ascii_lower_def)
qed

lemma fold_key_ascii_lower:
  "fold_key sg s = map (char_to_int sg) (map ascii_lower s)"
  by (simp add: fold_key_def tolower_ascii_lower)

lemma om_find_key:
  "fold_key sg s1 = fold_key sg s2 \<Longrightarrow> om_find sg om s1 = om_find sg om s2"
  by (induction om) (auto simp: CaseInsensitiveLess_fold_key)

text \<open>
  C8. Two names that are equal after the ASCII lower-casing of each of their bytes are
  looked up alike in every map: \<^verbatim>\<open>find\<close> gives the same entry, or none, for both.
\<close>

theorem lookup_case_insensitive:
  assumes "map ascii_lower s1 = map ascii_lower s2"
  shows "om_find sg om s1 = om_find sg om s2"
  using assms by (intro om_find_key) (simp add: fold_key_ascii_lower)

subsection \<open>Ordered maps\<close>

lemma om_subscript_key:
  "x \<in> set (fst (om_subscript sg name f om)) \<Longrightarrow> fst x = name \<or> fst x \<in> fst ` set om"
  by (induction om) (force split: prod.splits if_splits)+

lemma om_subscript_keys:
  "fst ` set (fst (om_subscript sg name f om)) \<subseteq> insert name (fst ` set om)"
  using om_subscript_key by blast

lemma om_ordered_Cons:
  "om_ordered sg (e # r) \<longleftrightarrow>
     (\<forall>x \<in> set r. fold_key sg (fst e) < fold_key sg (fst x)) \<and> om_ordered sg r"
  by (simp add: om_ordered_def CaseInsensitiveLess_fold_key)

lemma om_subscript_ordered:
  "om_ordered sg om \<Longrightarrow> om_ordered sg (fst (om_subscript sg name f om))"
proof (induction om)
  case Nil
  then show ?case by (simp add: om_ordered_def split: prod.splits)
next
  case (Cons e r)
  obtain k c where e: "e = (k, c)" by (cases e)
  from Cons.prems have hd: "\<forall>x \<in> set r. fold_key sg k < fold_key sg (fst x)"
    and tl: "om_ordered sg r"
    by (simp_all add: om_ordered_Cons e)
  show ?case
  proof (cases "CaseInsensitiveLess sg k name")
    case True
    have "\<forall>x \<in> set (fst (om_subscript sg name f r)). fold_key sg k < fold_key sg (fst x)"
    proof
      fix x assume "x \<in> set (fst (om_subscript sg name f r))"
      then have "fst x \<in> insert name (fst ` set r)"
        using om_subscript_keys[of sg name f r] by auto
      with hd True show "fold_key sg k < fold_key sg (fst x)"
        by (auto simp: CaseInsensitiveLess_fold_key)
    qed
    moreover obtain r' a where sub: "om_subscript sg name f r = (r', a)"
      by (cases "om_subscript sg name f r")
    ultimately show ?thesis
      using Cons.IH[OF tl] True by (simp add: e om_ordered_Cons)
  next
    case False
    show ?thesis
    proof (cases "CaseInsensitiveLess sg name k")
      case True
      with hd have "\<forall>x \<in> set r. fold_key sg name < fold_key sg (fst x)"
        by (auto simp: CaseInsensitiveLess_fold_key)
      with \<open>\<not> CaseInsensitiveLess sg k name\<close> True hd tl show ?thesis
        by (auto simp: e om_ordered_Cons CaseInsensitiveLess_fold_key split: prod.splits)
    next
      case False
      with \<open>\<not> CaseInsensitiveLess sg k name\<close> hd tl show ?thesis
        by (auto simp: e om_ordered_Cons split: prod.splits)
    qed
  qed
qed

lemma om_subscript_new:
  assumes "\<forall>e \<in> set om. fold_key sg (fst e) \<noteq> fold_key sg name"
  shows "mset (fst (om_subscript sg name f om)) =
           add_mset (name, fst (f (Option_button None))) (mset om) \<and>
         snd (om_subscript sg name f om) = snd (f (Option_button None))"
  using assms
proof (induction om)
  case Nil
  then show ?case by (simp split: prod.splits)
next
  case (Cons e r)
  obtain k c where e: "e = (k, c)" by (cases e)
  from Cons.prems have ne: "fold_key sg k \<noteq> fold_key sg name" by (simp add: e)
  then have "CaseInsensitiveLess sg k name \<or> CaseInsensitiveLess sg name k"
    by (auto simp: CaseInsensitiveLess_fold_key)
  with Cons show ?case
    by (auto simp: e split: prod.splits)
qed

lemma om_find_member:
  assumes "om_ordered sg om" and "(k, c) \<in> set om" and "fold_key sg name = fold_key sg k"
  shows "om_find sg om name = Some (k, c)"
  using assms
proof (induction om)
  case Nil
  then show ?case by simp
next
  case (Cons e r)
  obtain k0 c0 where e: "e = (k0, c0)" by (cases e)
  from Cons.prems(1) have hd: "\<forall>x \<in> set r. fold_key sg k0 < fold_key sg (fst x)"
    and tl: "om_ordered sg r"
    by (simp_all add: om_ordered_Cons e)
  show ?case
  proof (cases "(k, c) = (k0, c0)")
    case True
    with Cons.prems(3) show ?thesis
      by (simp add: e CaseInsensitiveLess_fold_key)
  next
    case False
    with Cons.prems(2) have mem: "(k, c) \<in> set r" by (auto simp: e)
    with hd have "fold_key sg k0 < fold_key sg k" by auto
    with Cons.prems(3) have "CaseInsensitiveLess sg k0 name"
      by (simp add: CaseInsensitiveLess_fold_key)
    with Cons.IH[OF tl mem Cons.prems(3)] show ?thesis by (simp add: e)
  qed
qed

section \<open>The catalog\<close>

lemma register_option_new:
  assumes "\<forall>e \<in> set (fst st). fold_key sg (fst e) \<noteq> fold_key sg (fst x)"
  shows "mset (fst (register_option sg st x)) =
           add_mset (fst x, (snd x)\<lparr>idx := Some (snd st)\<rparr>) (mset (fst st)) \<and>
         snd (register_option sg st x) = snd st + 1"
  using om_subscript_new[OF assms, of "\<lambda>this. operator_shl this (snd st) (snd x)"]
  by (simp add: register_option_def operator_shl_def)

lemma register_option_ordered:
  "om_ordered sg (fst st) \<Longrightarrow> om_ordered sg (fst (register_option sg st x))"
  by (simp add: register_option_def om_subscript_ordered)

lemma foldl_register_ordered:
  "om_ordered sg (fst st) \<Longrightarrow> om_ordered sg (fst (foldl (register_option sg) st tbl))"
  by (induction tbl arbitrary: st) (simp_all add: register_option_ordered)

lemma foldl_register_new:
  assumes "distinct (map (\<lambda>e. fold_key sg (fst e)) tbl)"
    and "\<forall>e \<in> set (fst st). \<forall>t \<in> set tbl. fold_key sg (fst e) \<noteq> fold_key sg (fst t)"
  shows "mset (fst (foldl (register_option sg) st tbl)) =
           mset (fst st) + mset (stamped (snd st) tbl) \<and>
         snd (foldl (register_option sg) st tbl) = snd st + length tbl"
  using assms
proof (induction tbl arbitrary: st)
  case Nil
  then show ?case by simp
next
  case (Cons x tbl)
  let ?st = "register_option sg st x"
  from Cons.prems(2) have new: "\<forall>e \<in> set (fst st). fold_key sg (fst e) \<noteq> fold_key sg (fst x)"
    by simp
  note reg = register_option_new[OF new]
  from reg have "set (fst ?st) = insert (fst x, (snd x)\<lparr>idx := Some (snd st)\<rparr>) (set (fst st))"
    by (metis set_mset_add_mset_insert set_mset_mset)
  with Cons.prems have
    n: "\<forall>e \<in> set (fst ?st). \<forall>t \<in> set tbl. fold_key sg (fst e) \<noteq> fold_key sg (fst t)"
    by auto
  from Cons.prems(1) have d: "distinct (map (\<lambda>e. fold_key sg (fst e)) tbl)" by simp
  from d n have "mset (fst (foldl (register_option sg) ?st tbl)) =
           mset (fst ?st) + mset (stamped (snd ?st) tbl) \<and>
         snd (foldl (register_option sg) ?st tbl) = snd ?st + length tbl"
    by (rule Cons.IH)
  with reg show ?case by simp
qed

lemma insertionIndex_stamped:
  "map insertionIndex (stamped n tbl) = [n..<n + length tbl]"
  by (induction tbl arbitrary: n) (simp_all add: insertionIndex_def upt_rec)

lemma catalog_length: "length (catalog b hc) = 41"
  by (simp add: catalog_def Let_def)

lemma catalog_keys_distinct: "distinct (map (\<lambda>e. fold_key sg (fst e)) (catalog b hc))"
  by (simp add: catalog_def Let_def fold_key_def tolower_def char_to_int_def)

lemma init_fresh:
  "mset (fst (init sg b hc ([], 0))) = mset (stamped 0 (catalog b hc))"
  "snd (init sg b hc ([], 0)) = 41"
  "om_ordered sg (fst (init sg b hc ([], 0)))"
proof -
  have "mset (fst (foldl (register_option sg) ([], 0) (catalog b hc))) =
           mset (fst ([] :: OptionsMap, 0 :: nat)) + mset (stamped (snd ([] :: OptionsMap, 0 :: nat)) (catalog b hc)) \<and>
         snd (foldl (register_option sg) ([], 0) (catalog b hc)) =
           snd ([] :: OptionsMap, 0 :: nat) + length (catalog b hc)"
    by (rule foldl_register_new) (simp_all add: catalog_keys_distinct)
  then show "mset (fst (init sg b hc ([], 0))) = mset (stamped 0 (catalog b hc))"
    and "snd (init sg b hc ([], 0)) = 41"
    by (simp_all add: init_def catalog_length)
  have "om_ordered sg (fst ([] :: OptionsMap, 0 :: nat))" by (simp add: om_ordered_def)
  then show "om_ordered sg (fst (init sg b hc ([], 0)))"
    unfolding init_def by (rule foldl_register_ordered)
qed

lemma init_find:
  assumes "(k, c) \<in> set (stamped 0 (catalog b hc))" and "fold_key sg name = fold_key sg k"
  shows "om_find sg (fst (init sg b hc ([], 0))) name = Some (k, c)"
proof -
  from assms(1) have "(k, c) \<in> set (fst (init sg b hc ([], 0)))"
    by (metis init_fresh(1) set_mset_mset)
  with init_fresh(3) show ?thesis using assms(2) by (rule om_find_member)
qed

lemma stamped_catalog_mem:
  "(''Tactical Mode'', (Option_check False None)\<lparr>idx := Some 0\<rparr>) \<in> set (stamped 0 (catalog b hc))"
  "(''Threads'', (Option_spin (sint (if hc = 0 then 1 else hc)) 1 512 (Some on_threads))\<lparr>idx := Some 3\<rparr>)
     \<in> set (stamped 0 (catalog b hc))"
  "(''Hash'', (Option_spin 16 1 (MaxHashMB b) (Some on_hash_size))\<lparr>idx := Some 4\<rparr>)
     \<in> set (stamped 0 (catalog b hc))"
  "(''SyzygyProbeLimit'', (Option_spin 6 0 6 None)\<lparr>idx := Some 40\<rparr>) \<in> set (stamped 0 (catalog b hc))"
  by (simp_all add: catalog_def Let_def)

lemma length_stamped: "length (stamped n tbl) = length tbl"
  by (induction tbl arbitrary: n) simp_all

lemma init_length: "length (fst (init sg b hc ([], 0))) = 41"
proof -
  have "size (mset (fst (init sg b hc ([], 0)))) = size (mset (stamped 0 (catalog b hc)))"
    by (simp only: init_fresh(1))
  then show ?thesis by (simp add: length_stamped catalog_length)
qed

lemma init_sorted_indices: "sort (map insertionIndex (fst (init sg b hc ([], 0)))) = [0..<41]"
proof -
  have "mset (map insertionIndex (fst (init sg b hc ([], 0)))) =
        mset (map insertionIndex (stamped 0 (catalog b hc)))"
    using init_fresh(1)[of sg b hc] by (metis mset_map)
  then have "mset [0..<41] = mset (map insertionIndex (fst (init sg b hc ([], 0))))"
    by (simp add: insertionIndex_stamped catalog_length)
  then show ?thesis by (rule properties_for_sort) simp
qed

text \<open>
  C5. Run on the empty map with the counter at 0, as at the start of the program,
  \<^verbatim>\<open>init\<close> leaves a map whose entries are the 41 entries of the catalog, each with
  its position in the catalog as index: the indices are the numbers 0 to 40, each once,
  Tactical Mode has index 0 and SyzygyProbeLimit index 40.
\<close>

theorem init_insertion_indices:
  "mset (fst (init sg b hc ([], 0))) = mset (stamped 0 (catalog b hc)) \<and>
   length (fst (init sg b hc ([], 0))) = 41 \<and>
   sort (map insertionIndex (fst (init sg b hc ([], 0)))) = [0..<41] \<and>
   om_find sg (fst (init sg b hc ([], 0))) ''Tactical Mode''
     = Some (''Tactical Mode'', (Option_check False None)\<lparr>idx := Some 0\<rparr>) \<and>
   om_find sg (fst (init sg b hc ([], 0))) ''SyzygyProbeLimit''
     = Some (''SyzygyProbeLimit'', (Option_spin 6 0 6 None)\<lparr>idx := Some 40\<rparr>)"
  using init_fresh(1)[of sg b hc] init_length[of sg b hc] init_sorted_indices[of sg b hc]
    init_find[OF stamped_catalog_mem(1) refl, of sg b hc]
    init_find[OF stamped_catalog_mem(4) refl, of sg b hc]
  by simp

theorem lookup_case_insensitive_witness:
  "om_find True (fst (init True True 8 ([], 0))) ''hash''
     = om_find True (fst (init True True 8 ([], 0))) ''Hash'' \<and>
   om_find True (fst (init True True 8 ([], 0))) ''HASH''
     = om_find True (fst (init True True 8 ([], 0))) ''Hash'' \<and>
   om_find True (fst (init True True 8 ([], 0))) ''Hash''
     = Some (''Hash'', (Option_spin 16 1 1048576 (Some on_hash_size))\<lparr>idx := Some 4\<rparr>)"
proof -
  have a: "map ascii_lower ''hash'' = map ascii_lower ''Hash''" by code_simp
  have b: "map ascii_lower ''HASH'' = map ascii_lower ''Hash''" by code_simp
  from lookup_case_insensitive[OF a] lookup_case_insensitive[OF b] init_find[OF stamped_catalog_mem(3) refl, of True True 8]
  show ?thesis by (simp add: MaxHashMB_def)
qed

section \<open>The bounds of spin cells\<close>

text \<open>The decimal text of an \<^verbatim>\<open>int\<close> parses back to it.\<close>

lemma digit_char_digit:
  assumes "d < 10"
  shows "isdigit (digit_char d) \<and> digit_val (digit_char d) = int d"
proof -
  from assms have "d \<in> {0, 1, 2, 3, 4, 5, 6, 7, 8, 9}" by auto
  then show ?thesis
    by (auto simp: digit_char_def isdigit_def digit_val_def)
qed

lemma isdigit_not_sign:
  "isdigit c \<Longrightarrow> \<not> isspace c \<and> c \<noteq> CHR ''-'' \<and> c \<noteq> CHR ''+''"
  by (auto simp: isdigit_def isspace_def)

lemma dec_digits_digits: "dec_digits n \<noteq> [] \<and> list_all isdigit (dec_digits n)"
proof (induction n rule: dec_digits.induct)
  case (1 n)
  show ?case
  proof (cases "n < 10")
    case True
    then show ?thesis by (subst (1 2) dec_digits.simps) (simp add: digit_char_digit)
  next
    case False
    with 1 show ?thesis by (subst (1 2) dec_digits.simps) (simp add: digit_char_digit)
  qed
qed

lemma strtol_digits_snoc:
  "list_all isdigit xs \<Longrightarrow> isdigit c \<Longrightarrow>
   strtol_digits acc (xs @ [c]) = strtol_digits acc xs * 10 + digit_val c"
  by (induction xs arbitrary: acc) simp_all

lemma strtol_digits_dec_digits: "strtol_digits 0 (dec_digits n) = int n"
proof (induction n rule: dec_digits.induct)
  case (1 n)
  show ?case
  proof (cases "n < 10")
    case True
    then show ?thesis by (subst dec_digits.simps) (simp add: digit_char_digit)
  next
    case False
    then have "strtol_digits 0 (dec_digits n) =
        strtol_digits 0 (dec_digits (n div 10)) * 10 + digit_val (digit_char (n mod 10))"
      by (subst dec_digits.simps) (simp add: strtol_digits_snoc dec_digits_digits digit_char_digit)
    moreover have "int (n div 10) * 10 + int (n mod 10) = int n"
      by (metis div_mult_mod_eq of_nat_add of_nat_mult of_nat_numeral)
    ultimately show ?thesis using False 1 by (simp add: digit_char_digit)
  qed
qed

lemma strtol_number_dec_digits:
  "strtol_number neg (dec_digits n) =
     (let v = (if neg then - int n else int n)
      in if v < INT_MIN \<or> INT_MAX < v then Inl out_of_range else Inr v)"
proof -
  obtain d ds where e: "dec_digits n = d # ds" and "isdigit d"
    using dec_digits_digits[of n] by (cases "dec_digits n") auto
  then show ?thesis
    using strtol_digits_dec_digits[of n]
    by (simp add: strtol_number_def Let_def del: strtol_digits.simps)
qed

lemma stoi_to_string:
  assumes "INT_MIN \<le> v" and "v \<le> INT_MAX"
  shows "stoi (to_string v) = Inr v"
proof (cases "v < 0")
  case True
  with assms show ?thesis
    by (simp add: stoi_def to_string_def isspace_def strtol_signed_def strtol_number_dec_digits)
next
  case False
  obtain d ds where e: "dec_digits (nat v) = d # ds" and d: "isdigit d"
    using dec_digits_digits[of "nat v"] by (cases "dec_digits (nat v)") auto
  from d have "\<not> isspace d" "d \<noteq> CHR ''-''" "d \<noteq> CHR ''+''"
    using isdigit_not_sign by blast+
  then have "stoi (to_string v) = strtol_number False (dec_digits (nat v))"
    using False by (simp add: stoi_def to_string_def e strtol_signed_def)
  with False assms show ?thesis
    by (simp add: strtol_number_dec_digits)
qed

lemma threads_default_bounds:
  fixes hc :: "32 word"
  assumes "hc \<le> 512"
  shows "1 \<le> sint (if hc = 0 then 1 else hc) \<and> sint (if hc = 0 then 1 else hc) \<le> 512"
proof -
  from assms have u: "uint hc \<le> 512" by (simp add: word_le_def)
  have "(0 :: int) \<le> uint hc" by (rule unsigned_greater_eq)
  then have lo: "- (2 ^ 31) \<le> uint hc" by (rule order_trans[rotated]) simp
  from u have hi: "uint hc < 2 ^ 31" by simp
  from lo hi have "signed_take_bit 31 (uint hc) = uint hc"
    by (rule signed_take_bit_int_eq_self)
  then have s: "sint hc = uint hc" by (simp add: sint_uint)
  have "1 \<le> uint hc" if "hc \<noteq> 0"
    using that int_one_le_iff_zero_less leI word_eq_iff_unsigned by fastforce
  with s u show ?thesis by auto
qed

lemma type_v_simps:
  "type_v (Option_string s f) = ''string''"
  "type_v (Option_check v f) = ''check''"
  "type_v (Option_button f) = ''button''"
  "type_v (Option_spin k lo hi f) = ''spin''"
  by (simp_all add: Option_string_def Option_check_def Option_button_def Option_spin_def)

lemma spin_invariant_Option_spin:
  assumes "INT_MIN \<le> v" and "v \<le> INT_MAX"
  shows "spin_invariant (Option_spin v lo hi f) = (lo \<le> v \<and> v \<le> hi)"
  using stoi_to_string[OF assms] by (auto simp: spin_invariant_def Option_spin_def)

lemma spin_invariant_idx_update: "spin_invariant (c\<lparr>idx := i\<rparr>) = spin_invariant c"
  by (simp add: spin_invariant_def split: sum.splits)

text \<open>
  A spin cell read as an integer right after its construction gives the value it was
  constructed with.
\<close>

theorem spin_constructed_value:
  assumes "INT_MIN \<le> v" and "v \<le> INT_MAX"
  shows "operator_int (Option_spin v lo hi f) = Inr v"
  using stoi_to_string[OF assms] by (simp add: operator_int_def Option_spin_def)

theorem spin_constructed_value_witness: "operator_int (Option_spin (- 100) (- 100) 100 None) = Inr (- 100)"
proof -
  have "INT_MIN \<le> - 100" and "- 100 \<le> INT_MAX" by (simp_all add: INT_MIN_def INT_MAX_def)
  then show ?thesis by (rule spin_constructed_value)
qed

text \<open>
  An assignment to a spin cell keeps the invariant, whatever the text and however the
  call ends.
\<close>

theorem assign_preserves_spin_invariant:
  assumes "type_v c = ''spin''" and "spin_invariant c"
  shows "spin_invariant (cell (operator_assign c v))"
proof (cases "refused c v")
  case (Inl e)
  with assms show ?thesis by (simp add: operator_assign_def)
next
  case (Inr r)
  show ?thesis
  proof (cases r)
    case True
    with Inr assms show ?thesis by (simp add: operator_assign_def)
  next
    case False
    with Inr assms(1) obtain k where "stoi v = Inr k" "min_v c \<le> k" "k \<le> max_v c"
      by (auto simp: refused_def split: if_splits sum.splits)
    with Inr False assms(1) show ?thesis
      by (simp add: operator_assign_def spin_invariant_def Let_def)
  qed
qed

theorem assign_preserves_spin_invariant_witness:
  "spin_invariant (cell (operator_assign (Option_spin 16 1 2048 (Some on_hash_size)) ''512'')) \<and>
   spin_invariant (cell (operator_assign (Option_spin 16 1 2048 (Some on_hash_size)) ''4000''))"
proof -
  have i: "spin_invariant (Option_spin 16 1 2048 (Some on_hash_size))"
    by (simp add: spin_invariant_Option_spin INT_MIN_def INT_MAX_def)
  from assign_preserves_spin_invariant[OF hash_cell(1) i, of "''512''"]
    assign_preserves_spin_invariant[OF hash_cell(1) i, of "''4000''"]
  show ?thesis by simp
qed

lemma stamped_list_all:
  assumes "\<And>k c i. P (k, c\<lparr>idx := i\<rparr>) = P (k, c)"
  shows "list_all P (stamped n tbl) = list_all P tbl"
  by (induction tbl arbitrary: n) (simp_all add: assms)

lemma catalog_spin_invariant:
  assumes "hc \<le> 512"
  shows "list_all (\<lambda>e. type_v (snd e) = ''spin'' \<longrightarrow> spin_invariant (snd e)) (catalog b hc)"
  using threads_default_bounds[OF assms]
  by (simp add: catalog_def Let_def type_v_simps spin_invariant_Option_spin INT_MIN_def
      INT_MAX_def MaxHashMB_def)

text \<open>
  When \<^verbatim>\<open>hardware_concurrency()\<close> is at most 512, every spin cell of the map that
  \<^verbatim>\<open>init\<close> builds satisfies the invariant.
\<close>

theorem init_spin_invariant:
  assumes "hc \<le> 512"
  shows "list_all (\<lambda>e. type_v (snd e) = ''spin'' \<longrightarrow> spin_invariant (snd e))
           (fst (init sg b hc ([], 0)))"
proof -
  have "list_all (\<lambda>e. type_v (snd e) = ''spin'' \<longrightarrow> spin_invariant (snd e))
          (stamped 0 (catalog b hc))"
    using catalog_spin_invariant[OF assms]
    by (subst stamped_list_all) (simp_all add: spin_invariant_idx_update)
  moreover have "set (fst (init sg b hc ([], 0))) = set (stamped 0 (catalog b hc))"
    using init_fresh(1)[of sg b hc] by (metis set_mset_mset)
  ultimately show ?thesis by (simp add: list_all_iff)
qed

theorem init_spin_invariant_witness:
  "list_all (\<lambda>e. type_v (snd e) = ''spin'' \<longrightarrow> spin_invariant (snd e))
     (fst (init True True 8 ([], 0)))"
proof -
  have "(8 :: 32 word) \<le> 512" by simp
  then show ?thesis by (rule init_spin_invariant)
qed

text \<open>
  C4 asks that \<^verbatim>\<open>init\<close> constructs every spin cell with its value within its
  bounds. On a machine for which \<^verbatim>\<open>hardware_concurrency()\<close> is 1024 the option
  Threads is constructed with the value 1024 and the maximum 512, and the invariant
  does not hold of it.
\<close>

theorem init_threads_default_above_max:
  "om_find sg (fst (init sg b 1024 ([], 0))) ''Threads''
     = Some (''Threads'', (Option_spin 1024 1 512 (Some on_threads))\<lparr>idx := Some 3\<rparr>) \<and>
   type_v ((Option_spin 1024 1 512 (Some on_threads))\<lparr>idx := Some 3\<rparr>) = ''spin'' \<and>
   operator_int ((Option_spin 1024 1 512 (Some on_threads))\<lparr>idx := Some 3\<rparr>) = Inr 1024 \<and>
   max_v ((Option_spin 1024 1 512 (Some on_threads))\<lparr>idx := Some 3\<rparr>) = 512 \<and>
   \<not> spin_invariant ((Option_spin 1024 1 512 (Some on_threads))\<lparr>idx := Some 3\<rparr>)"
proof -
  have "om_find sg (fst (init sg b 1024 ([], 0))) ''Threads''
     = Some (''Threads'', (Option_spin (sint (if (1024 :: 32 word) = 0 then 1 else (1024 :: 32 word))) 1 512 (Some on_threads))\<lparr>idx := Some 3\<rparr>)"
    by (rule init_find[OF stamped_catalog_mem(2) refl])
  then show ?thesis
    by (simp add: Option_spin_def operator_int_def spin_invariant_def to_string_eval stoi_eval)
qed

section \<open>The printer\<close>

lemma print_option_declaration_line:
  "kind_of (snd e) \<noteq> None \<Longrightarrow> print_option e = declaration_line e"
  by (auto simp: print_option_def declaration_line_def kind_of_def split: if_splits)

lemma foldl_append_concat:
  "foldl (\<lambda>out i. case g i of None \<Rightarrow> out | Some e \<Rightarrow> out @ h e) os xs =
   os @ concat (map (\<lambda>i. case g i of None \<Rightarrow> [] | Some e \<Rightarrow> h e) xs)"
  by (induction xs arbitrary: os) (auto split: option.splits)

lemma first_with_idx_Some:
  "first_with_idx i om = Some e \<Longrightarrow> e \<in> set om \<and> idx (snd e) = Some i"
  by (induction om) (auto split: if_splits)

lemma first_with_idx_None:
  "first_with_idx i om = None \<Longrightarrow> e \<in> set om \<Longrightarrow> idx (snd e) \<noteq> Some i"
  by (induction om) (auto split: if_splits)

lemma map_sort_key: "map f (sort_key f xs) = sort (map f xs)"
  by (rule properties_for_sort[symmetric]) simp_all

lemma first_with_idx_enumerate:
  assumes "registry_wf om"
  shows "map (\<lambda>i. first_with_idx i om) [0..<length om] = map Some (enumerateByInsertionOrder om)"
proof -
  let ?es = "enumerateByInsertionOrder om"
  from assms have all: "\<And>e. e \<in> set om \<Longrightarrow> idx (snd e) \<noteq> None"
    and srt: "sort (map insertionIndex om) = [0..<length om]"
    by (auto simp: registry_wf_def list_all_iff)
  have len: "length ?es = length om" by (simp add: enumerateByInsertionOrder_def)
  have ix: "map insertionIndex ?es = [0..<length om]"
    by (simp add: enumerateByInsertionOrder_def map_sort_key srt)
  have "distinct (sort (map insertionIndex om))" unfolding srt by simp
  then have "distinct (map insertionIndex om)" by simp
  then have inj: "inj_on insertionIndex (set om)" by (simp add: distinct_map)
  have pt: "first_with_idx i om = Some (?es ! i)" if "i < length om" for i
  proof -
    from that len have mem: "?es ! i \<in> set om"
      by (metis enumerateByInsertionOrder_def nth_mem set_sort)
    from that len have "map insertionIndex ?es ! i = insertionIndex (?es ! i)" by simp
    with ix that have ii: "insertionIndex (?es ! i) = i" by simp
    with all[OF mem] have "idx (snd (?es ! i)) = Some i"
      by (auto simp: insertionIndex_def split: option.splits)
    with mem obtain e where f: "first_with_idx i om = Some e"
      using first_with_idx_None[of i om "?es ! i"] by (cases "first_with_idx i om") auto
    then have "e \<in> set om" and "idx (snd e) = Some i"
      using first_with_idx_Some[OF f] by simp_all
    then have "insertionIndex e = insertionIndex (?es ! i)"
      using ii by (simp add: insertionIndex_def)
    with inj \<open>e \<in> set om\<close> mem have "e = ?es ! i" by (simp add: inj_on_eq_iff)
    with f show ?thesis by simp
  qed
  have "map (\<lambda>i. first_with_idx i om) [0..<length om] = map (\<lambda>i. Some (?es ! i)) [0..<length ?es]"
    using pt by (simp add: len)
  also have "\<dots> = map Some (map (\<lambda>i. ?es ! i) [0..<length ?es])" by simp
  also have "\<dots> = map Some ?es" by (simp only: map_nth)
  finally show ?thesis .
qed

lemma operator_shl_ostream_enumerate:
  assumes "registry_wf om"
  shows "operator_shl_ostream os om = os @ concat (map print_option (enumerateByInsertionOrder om))"
proof -
  have "operator_shl_ostream os om =
          os @ concat (map (\<lambda>i. case first_with_idx i om of None \<Rightarrow> [] | Some e \<Rightarrow> print_option e)
                         [0..<length om])"
    by (simp add: operator_shl_ostream_def foldl_append_concat)
  also have "map (\<lambda>i. case first_with_idx i om of None \<Rightarrow> [] | Some e \<Rightarrow> print_option e) [0..<length om]
             = map (\<lambda>r. case r of None \<Rightarrow> [] | Some e \<Rightarrow> print_option e)
                 (map (\<lambda>i. first_with_idx i om) [0..<length om])"
    by simp
  also have "\<dots> = map print_option (enumerateByInsertionOrder om)"
    by (simp add: first_with_idx_enumerate[OF assms])
  finally show ?thesis .
qed

text \<open>
  C9. For a registry as the data model has it, the printer appends to the stream the
  lines of the settings in the enumeration by insertion index, which holds every
  setting once, by ascending index and not in the order of the names; the line of a
  setting is \<open>option name\<close>, the name, \<open>type\<close> and the name of the kind, then
  \<open>default\<close> and the default value unless the kind is Button, then \<open>min\<close> and
  \<open>max\<close> with the bounds when the kind is Spin, and it starts with a newline.
\<close>

theorem print_registry_lines:
  assumes "registry_wf om"
  shows "operator_shl_ostream os om = os @ concat (map declaration_line (enumerateByInsertionOrder om)) \<and>
         length (enumerateByInsertionOrder om) = length om \<and>
         mset (enumerateByInsertionOrder om) = mset om \<and>
         map insertionIndex (enumerateByInsertionOrder om) = [0..<length om]"
proof -
  let ?es = "enumerateByInsertionOrder om"
  from assms have srt: "sort (map insertionIndex om) = [0..<length om]"
    and kinds: "\<And>e. e \<in> set ?es \<Longrightarrow> kind_of (snd e) \<noteq> None"
    by (auto simp: registry_wf_def list_all_iff enumerateByInsertionOrder_def)
  from kinds have "map print_option ?es = map declaration_line ?es"
    by (simp add: print_option_declaration_line)
  with operator_shl_ostream_enumerate[OF assms, of os]
  have "operator_shl_ostream os om = os @ concat (map declaration_line ?es)" by simp
  then show ?thesis
    by (simp add: enumerateByInsertionOrder_def map_sort_key srt)
qed

lemma three_options:
  "fst (foldl (register_option True) ([], 0)
       [(''Threads'', Option_spin 4 1 512 (Some on_threads)),
        (''Ponder'', Option_check False None),
        (''Clear Hash'', Option_button (Some on_clear_hash))]) =
   [(''Clear Hash'', (Option_button (Some on_clear_hash))\<lparr>idx := Some 2\<rparr>),
    (''Ponder'', (Option_check False None)\<lparr>idx := Some 1\<rparr>),
    (''Threads'', (Option_spin 4 1 512 (Some on_threads))\<lparr>idx := Some 0\<rparr>)]"
  by (simp add: register_option_def operator_shl_def CaseInsensitiveLess_def tolower_def
      char_to_int_def)

theorem print_registry_lines_witness:
  "operator_shl_ostream []
     (fst (foldl (register_option True) ([], 0)
       [(''Threads'', Option_spin 4 1 512 (Some on_threads)),
        (''Ponder'', Option_check False None),
        (''Clear Hash'', Option_button (Some on_clear_hash))])) =
   CHR 0x0A # ''option name Threads type spin default 4 min 1 max 512'' @
   CHR 0x0A # ''option name Ponder type check default false'' @
   CHR 0x0A # ''option name Clear Hash type button''"
proof -
  let ?om = "[(''Clear Hash'', (Option_button (Some on_clear_hash))\<lparr>idx := Some 2\<rparr>),
    (''Ponder'', (Option_check False None)\<lparr>idx := Some 1\<rparr>),
    (''Threads'', (Option_spin 4 1 512 (Some on_threads))\<lparr>idx := Some 0\<rparr>)]"
  have wf: "registry_wf ?om"
    by (simp add: registry_wf_def kind_of_def insertionIndex_def Option_button_def
        Option_check_def Option_spin_def upt_rec)
  have e: "enumerateByInsertionOrder ?om =
    [(''Threads'', (Option_spin 4 1 512 (Some on_threads))\<lparr>idx := Some 0\<rparr>),
     (''Ponder'', (Option_check False None)\<lparr>idx := Some 1\<rparr>),
     (''Clear Hash'', (Option_button (Some on_clear_hash))\<lparr>idx := Some 2\<rparr>)]"
    by (simp add: enumerateByInsertionOrder_def insertionIndex_def)
  from print_registry_lines[OF wf, of "[]"] show ?thesis
    unfolding three_options e
    by (simp add: declaration_line_def kind_of_def Option_button_def
        Option_check_def Option_spin_def to_string_eval)
qed


lemma kind_of_idx_update: "kind_of (c\<lparr>idx := i\<rparr>) = kind_of c"
  by (simp add: kind_of_def)

lemma stamped_all:
  "list_all (\<lambda>e. kind_of (snd e) \<noteq> None) tbl \<Longrightarrow>
   list_all (\<lambda>e. kind_of (snd e) \<noteq> None \<and> idx (snd e) \<noteq> None) (stamped n tbl)"
  by (induction tbl arbitrary: n) (simp_all add: kind_of_idx_update)

lemma catalog_kinds: "list_all (\<lambda>e. kind_of (snd e) \<noteq> None) (catalog b hc)"
  by (simp add: catalog_def Let_def kind_of_def Option_button_def
        Option_check_def Option_spin_def Option_string_def)

lemma init_registry_wf: "registry_wf (fst (init sg b hc ([], 0)))"
proof -
  have "list_all (\<lambda>e. kind_of (snd e) \<noteq> None \<and> idx (snd e) \<noteq> None) (stamped 0 (catalog b hc))"
    using catalog_kinds by (rule stamped_all)
  moreover have "set (fst (init sg b hc ([], 0))) = set (stamped 0 (catalog b hc))"
    using init_fresh(1)[of sg b hc] by (metis set_mset_mset)
  ultimately have "list_all (\<lambda>e. kind_of (snd e) \<noteq> None \<and> idx (snd e) \<noteq> None)
      (fst (init sg b hc ([], 0)))"
    by (simp add: list_all_iff)
  then show ?thesis
    by (simp add: registry_wf_def init_sorted_indices init_length)
qed

lemma init_enumerate:
  "enumerateByInsertionOrder (fst (init sg b hc ([], 0))) = stamped 0 (catalog b hc)"
  unfolding enumerateByInsertionOrder_def
proof (rule sort_key_inj_key_eq)
  show "mset (fst (init sg b hc ([], 0))) = mset (stamped 0 (catalog b hc))"
    by (rule init_fresh)
  have "distinct (sort (map insertionIndex (fst (init sg b hc ([], 0)))))"
    unfolding init_sorted_indices by simp
  then show "inj_on insertionIndex (set (fst (init sg b hc ([], 0))))"
    by (simp add: distinct_map)
  show "sorted (map insertionIndex (stamped 0 (catalog b hc)))"
    by (simp add: insertionIndex_stamped)
qed

text \<open>
  Printing the map that \<^verbatim>\<open>init\<close> builds writes the lines of the 41 options in the
  order of the catalog.
\<close>

theorem print_catalog_order:
  "operator_shl_ostream os (fst (init sg b hc ([], 0))) =
     os @ concat (map print_option (stamped 0 (catalog b hc)))"
  using operator_shl_ostream_enumerate[OF init_registry_wf, of os sg b hc]
  by (simp add: init_enumerate)


end
